theory Spec2Isabelle
  imports Main
begin

section \<open>The generator script \<^verbatim>\<open>generar_tablas.py\<close>\<close>

text \<open>
  The script builds a table of 51 rows in memory (a header and 50 random rows) and writes
  it with \<^verbatim>\<open>csv.writer\<close> to \<^verbatim>\<open>personas.csv\<close>. Its own code is the two lists, the loop,
  the file name and the \<^verbatim>\<open>with open\<close> block. Everything else is Python's library
  (\<^verbatim>\<open>random\<close>, \<^verbatim>\<open>csv\<close>, \<^verbatim>\<open>open\<close>, \<^verbatim>\<open>str\<close>), modelled below from its documented behaviour
  and kept apart from the script's code.
\<close>

subsection \<open>Errors and values\<close>

datatype error = IndexError | ValueError | OSError

text \<open>A cell of a row: the script puts \<^verbatim>\<open>str\<close> and \<^verbatim>\<open>int\<close> objects in the same list.\<close>

datatype cell = PyStr string | PyInt int

type_synonym row = "cell list"

subsection \<open>Library: the random source\<close>

text \<open>
  The random source is the infinite sequence of raw draws still to come. One call of the
  library's \<^verbatim>\<open>_randbelow(n)\<close> takes the next draw and hands back a number below \<open>n\<close>; the
  reduction modulo \<open>n\<close> stands for that promise, so that every sequence is a behaviour of
  the library and every behaviour of the library is some sequence.
  \<^verbatim>\<open>random.choice(seq)\<close> is \<^verbatim>\<open>seq[_randbelow(len(seq))]\<close> and raises IndexError on an empty
  sequence; \<^verbatim>\<open>random.randint(a, b)\<close> is \<^verbatim>\<open>randrange(a, b+1)\<close>, that is
  \<^verbatim>\<open>a + _randbelow(b+1-a)\<close>, and raises ValueError on an empty range.
\<close>

type_synonym rng = "nat \<Rightarrow> nat"

definition advance :: "nat \<Rightarrow> rng \<Rightarrow> rng" where
  "advance n r = (\<lambda>i. r (i + n))"

definition randbelow :: "rng \<Rightarrow> nat \<Rightarrow> nat \<times> rng" where
  "randbelow r n = (r 0 mod n, advance 1 r)"

definition random_choice :: "rng \<Rightarrow> 'a list \<Rightarrow> error + ('a \<times> rng)" where
  "random_choice r seq =
     (if length seq = 0 then Inl IndexError
      else (case randbelow r (length seq) of (i, r') \<Rightarrow> Inr (seq ! i, r')))"

definition random_randint :: "rng \<Rightarrow> int \<Rightarrow> int \<Rightarrow> error + (int \<times> rng)" where
  "random_randint r a b =
     (let width = b + 1 - a
      in if width > 0
         then (case randbelow r (nat width) of (i, r') \<Rightarrow> Inr (a + int i, r'))
         else Inl ValueError)"

subsection \<open>The script: lists and generation loop\<close>

definition nombres :: "string list" where
  "nombres = [''Juan'', ''Ana'', ''Luis'', ''Maria'', ''Pedro'',
              ''Lucia'', ''Carlos'', ''Sofia'', ''Diego'', ''Elena'']"

definition ciudades :: "string list" where
  "ciudades = [''Madrid'', ''Barcelona'', ''Valencia'', ''Sevilla'', ''Bilbao'',
               ''Zaragoza'', ''Malaga'', ''Granada'', ''Murcia'', ''Alicante'']"

definition header :: row where
  "header = [PyStr ''Nombre'', PyStr ''Edad'', PyStr ''Ciudad'']"

text \<open>
  One pass of the loop body: three calls in the order of the source, then
  \<^verbatim>\<open>data.append([nombre, edad, ciudad])\<close>.
\<close>

definition loop_body :: "row list \<times> rng \<Rightarrow> error + (row list \<times> rng)" where
  "loop_body st =
     (case st of (data, r) \<Rightarrow>
        (case random_choice r nombres of
           Inl e \<Rightarrow> Inl e
         | Inr (nombre, r1) \<Rightarrow>
        (case random_randint r1 18 65 of
           Inl e \<Rightarrow> Inl e
         | Inr (edad, r2) \<Rightarrow>
        (case random_choice r2 ciudades of
           Inl e \<Rightarrow> Inl e
         | Inr (ciudad, r3) \<Rightarrow>
             Inr (data @ [[PyStr nombre, PyInt edad, PyStr ciudad]], r3)))))"

text \<open>\<^verbatim>\<open>for _ in range(n)\<close>: the body runs \<open>n\<close> times, an exception leaves the loop.\<close>

fun for_range :: "nat \<Rightarrow> row list \<times> rng \<Rightarrow> error + (row list \<times> rng)" where
  "for_range 0 st = Inr st"
| "for_range (Suc n) st =
     (case loop_body st of Inl e \<Rightarrow> Inl e | Inr st' \<Rightarrow> for_range n st')"

definition generate :: "rng \<Rightarrow> error + (row list \<times> rng)" where
  "generate r = for_range 50 ([header], r)"

subsection \<open>Library: \<^verbatim>\<open>str\<close> of an integer\<close>

definition digit :: "nat \<Rightarrow> char" where
  "digit d = ''0123456789'' ! d"

fun str_nat :: "nat \<Rightarrow> string" where
  "str_nat n = (if n < 10 then [digit n] else str_nat (n div 10) @ [digit (n mod 10)])"

declare str_nat.simps [simp del]

definition str_int :: "int \<Rightarrow> string" where
  "str_int i = (if i < 0 then CHR ''-'' # str_nat (nat (- i)) else str_nat (nat i))"

subsection \<open>Library: the csv writer, dialect \<^verbatim>\<open>excel\<close>\<close>

text \<open>
  \<^verbatim>\<open>csv.writer(file)\<close> takes the default dialect: delimiter comma, quote character the
  double quote, line terminator CR LF, quoting minimal with doubled quotes. A field that
  is not a string is written as \<^verbatim>\<open>str(field)\<close>. A field is quoted when it holds the
  delimiter, the quote character or a character of the line terminator; a row made of one
  empty field is written as two quotes.
\<close>

definition CR :: char where "CR = CHR 0x0D"
definition LF :: char where "LF = CHR 0x0A"

definition delimiter :: char where "delimiter = CHR '',''"
definition quotechar :: char where "quotechar = CHR 0x22"
definition lineterminator :: string where "lineterminator = [CR, LF]"

fun cell_text :: "cell \<Rightarrow> string" where
  "cell_text (PyStr s) = s"
| "cell_text (PyInt i) = str_int i"

definition needs_quote :: "string \<Rightarrow> bool" where
  "needs_quote s = list_ex (\<lambda>c. c = delimiter \<or> c = quotechar \<or> c \<in> set lineterminator) s"

definition quoted :: "string \<Rightarrow> string" where
  "quoted s = quotechar # concat (map (\<lambda>c. if c = quotechar then [c, c] else [c]) s) @ [quotechar]"

definition csv_field :: "string \<Rightarrow> string" where
  "csv_field s = (if needs_quote s then quoted s else s)"

fun join :: "char \<Rightarrow> string list \<Rightarrow> string" where
  "join d [] = []"
| "join d [f] = f"
| "join d (f # g # fs) = f @ d # join d (g # fs)"

definition csv_line :: "row \<Rightarrow> string" where
  "csv_line row =
     (let texts = map cell_text row
      in (if texts = [[]] then [quotechar, quotechar] else join delimiter (map csv_field texts))
         @ lineterminator)"

subsection \<open>Library: files\<close>

text \<open>
  The file system holds the content of each existing file. Whether \<^verbatim>\<open>open(path, 'w')\<close>
  succeeds (the directory exists, the path is writable) and how many more characters the
  disk takes (\<open>None\<close> when there is no bound) belong to the environment.
  Opening for writing creates the file or truncates it. A text file translates every LF
  written: to \<^verbatim>\<open>os.linesep\<close> when \<^verbatim>\<open>newline\<close> is None, not at all when it is the empty
  string or LF, to \<^verbatim>\<open>newline\<close> itself otherwise.

  A text file is buffered: what is written stays pending in memory, and goes to the disk
  once \<open>chunk_size\<close> characters are pending, on a flush and on the close. The script
  writes less than \<open>chunk_size\<close> characters in all (lemma \<open>text_fits\<close> below) and never
  flushes, so here a write only extends the pending text and cannot fail, and the close
  writes the pending text out. The close raises OSError when the disk does not take all of
  it; the part that the disk took stays in the file.
\<close>

datatype platform = Posix | Windows

fun os_linesep :: "platform \<Rightarrow> string" where
  "os_linesep Posix = [LF]"
| "os_linesep Windows = [CR, LF]"

definition chunk_size :: nat where
  "chunk_size = 8192"

record fs =
  platform :: platform
  files :: "string \<rightharpoonup> string"
  openable :: "string \<Rightarrow> bool"
  space :: "nat option"

record handle =
  h_path :: string
  h_newline :: "string option"
  h_platform :: platform
  h_pending :: string

text \<open>Whether \<open>k\<close> more characters fit in the free space, and the part of a text that fits.\<close>

fun enough :: "nat option \<Rightarrow> nat \<Rightarrow> bool" where
  "enough None k = True"
| "enough (Some n) k = (k \<le> n)"

fun allowed :: "nat option \<Rightarrow> 'a list \<Rightarrow> 'a list" where
  "allowed None xs = xs"
| "allowed (Some n) xs = take n xs"

definition open_w :: "string \<Rightarrow> string option \<Rightarrow> fs \<Rightarrow> (error + handle) \<times> fs" where
  "open_w path newline s =
     (if openable s path
      then (Inr \<lparr>h_path = path, h_newline = newline, h_platform = platform s, h_pending = []\<rparr>,
            s\<lparr>files := (files s)(path \<mapsto> [])\<rparr>)
      else (Inl OSError, s))"

definition translate_newlines :: "platform \<Rightarrow> string option \<Rightarrow> string \<Rightarrow> string" where
  "translate_newlines pf newline str =
     (let target = (case newline of
                      None \<Rightarrow> os_linesep pf
                    | Some nl \<Rightarrow> if nl = [] then [LF] else nl)
      in concat (map (\<lambda>c. if c = LF then target else [c]) str))"

definition content :: "fs \<Rightarrow> string \<Rightarrow> string" where
  "content s path = (case files s path of None \<Rightarrow> [] | Some old \<Rightarrow> old)"

definition file_write :: "handle \<Rightarrow> string \<Rightarrow> handle" where
  "file_write h str =
     h\<lparr>h_pending := h_pending h @ translate_newlines (h_platform h) (h_newline h) str\<rparr>"

definition file_close :: "handle \<Rightarrow> fs \<Rightarrow> (error + unit) \<times> fs" where
  "file_close h s =
     (if enough (space s) (length (h_pending h)) then Inr () else Inl OSError,
      s\<lparr>files := (files s)(h_path h \<mapsto>
             content s (h_path h) @ allowed (space s) (h_pending h)),
        space := map_option (\<lambda>n. n - length (h_pending h)) (space s)\<rparr>)"

definition writerow :: "handle \<Rightarrow> row \<Rightarrow> handle" where
  "writerow h row = file_write h (csv_line row)"

fun writerows :: "handle \<Rightarrow> row list \<Rightarrow> handle" where
  "writerows h [] = h"
| "writerows h (row # rows) = writerows (writerow h row) rows"

subsection \<open>The script: writing the file\<close>

definition filename :: string where
  "filename = ''personas.csv''"

text \<open>
  The whole script: the generation loop, then the \<^verbatim>\<open>with open\<close> block, whose body is
  the call of \<^verbatim>\<open>writerows\<close> and whose exit closes the file. Nothing catches an
  exception, so the first one ends the run; the interpreter then exits with status 1, and
  with status 0 when the script runs to its end.
\<close>

definition main :: "rng \<Rightarrow> fs \<Rightarrow> (error + unit) \<times> fs" where
  "main r s =
     (case generate r of
        Inl e \<Rightarrow> (Inl e, s)
      | Inr (data, r') \<Rightarrow>
          (case open_w filename (Some []) s of
             (Inl e, s1) \<Rightarrow> (Inl e, s1)
           | (Inr file, s1) \<Rightarrow> file_close (writerows file data) s1))"

fun exit_status :: "error + unit \<Rightarrow> nat" where
  "exit_status (Inl e) = 1"
| "exit_status (Inr u) = 0"

subsection \<open>Notions used to state the properties\<close>

text \<open>The table \<^verbatim>\<open>data\<close> as it stands after the loop.\<close>

definition table :: "rng \<Rightarrow> row list" where
  "table r = (case generate r of Inl e \<Rightarrow> [] | Inr (data, r') \<Rightarrow> data)"

text \<open>The \<open>j\<close>-th draw of a source, counted from 1.\<close>

definition nth_draw :: "rng \<Rightarrow> nat \<Rightarrow> nat" where
  "nth_draw r j = r (j - 1)"

text \<open>The plain join of the fields of a row with commas: no quoting, no terminator.\<close>

definition comma_join :: "row \<Rightarrow> string" where
  "comma_join row = join delimiter (map cell_text row)"

text \<open>
  The lines of a text as Python's \<^verbatim>\<open>str.splitlines\<close> cuts them at LF, CR and CR LF:
  the terminators are dropped, and a text that ends with a terminator has no empty last line.
\<close>

fun splitlines_from :: "string \<Rightarrow> string \<Rightarrow> string list" where
  "splitlines_from cur [] = (if cur = [] then [] else [cur])"
| "splitlines_from cur [c] = (if c = CR \<or> c = LF then [cur] else [cur @ [c]])"
| "splitlines_from cur (c # d # cs) =
     (if c = CR \<and> d = LF then cur # splitlines_from [] cs
      else if c = CR \<or> c = LF then cur # splitlines_from [] (d # cs)
      else splitlines_from (cur @ [c]) (d # cs))"

definition splitlines :: "string \<Rightarrow> string list" where
  "splitlines str = splitlines_from [] str"

text \<open>
  The text in which every row is a comma-joined line ended by the native newline of the
  platform, \<^verbatim>\<open>os.linesep\<close>: written after the words of the specification, to be compared
  with what the script writes.
\<close>

definition spec_native_lines :: "platform \<Rightarrow> row list \<Rightarrow> string" where
  "spec_native_lines pf rows = concat (map (\<lambda>row. comma_join row @ os_linesep pf) rows)"

text \<open>
  Concrete inputs: the source whose every draw is 0, one that leaves 0 after 150 draws, a
  source that counts; disks on which every path can be opened, with the given files and
  free space, and a disk on which no path can be opened.
\<close>

definition zeros :: rng where
  "zeros = (\<lambda>i. 0)"

definition counting :: rng where
  "counting = (\<lambda>i. 7 * i + 3)"

definition zeros_then_ones :: rng where
  "zeros_then_ones = (\<lambda>i. if i < 150 then 0 else 1)"

definition disk :: "platform \<Rightarrow> (string \<rightharpoonup> string) \<Rightarrow> nat option \<Rightarrow> fs" where
  "disk pf fsmap budget =
     \<lparr>platform = pf, files = fsmap, openable = (\<lambda>path. True), space = budget\<rparr>"

definition empty_disk :: "platform \<Rightarrow> fs" where
  "empty_disk pf = disk pf Map.empty None"

definition used_disk :: fs where
  "used_disk =
     disk Windows [filename \<mapsto> ''old content'', ''notes.txt'' \<mapsto> ''keep''] (Some 5000)"

definition full_disk :: fs where
  "full_disk = disk Posix Map.empty (Some 3)"

definition readonly_disk :: fs where
  "readonly_disk =
     \<lparr>platform = Posix, files = Map.empty, openable = (\<lambda>path. False), space = None\<rparr>"

text \<open>The row that pass \<open>k\<close> of the loop (counted from 0) appends, in closed form.\<close>

definition row_of :: "rng \<Rightarrow> nat \<Rightarrow> row" where
  "row_of r k =
     [PyStr (nombres ! (r (3 * k) mod 10)),
      PyInt (18 + int (r (3 * k + 1) mod 48)),
      PyStr (ciudades ! (r (3 * k + 2) mod 10))]"

section \<open>Lemmas\<close>

subsection \<open>The generation loop in closed form\<close>

lemma loop_body_eq:
  "loop_body (data, r) = Inr (data @ [row_of r 0], advance 3 r)"
proof -
  have n: "length nombres = 10" and c: "length ciudades = 10"
    by (simp_all add: nombres_def ciudades_def)
  show ?thesis
    unfolding loop_body_def random_choice_def random_randint_def randbelow_def row_of_def
    by (simp add: n c Let_def advance_def numeral_3_eq_3)
qed

lemma row_of_advance: "row_of (advance 3 r) k = row_of r (Suc k)"
  by (simp add: row_of_def advance_def add.commute)

lemma advance_advance: "advance m (advance n r) = advance (n + m) r"
  by (simp add: advance_def fun_eq_iff ac_simps)

lemma for_range_eq:
  "for_range n (data, r) = Inr (data @ map (row_of r) [0..<n], advance (3 * n) r)"
proof (induction n arbitrary: data r)
  case 0
  show ?case by (simp add: advance_def)
next
  case (Suc n)
  have "map (row_of (advance 3 r)) [0..<n] = map (row_of r) (map Suc [0..<n])"
    by (simp add: row_of_advance)
  also have "\<dots> = map (row_of r) [Suc 0..<Suc n]"
    by (simp only: map_Suc_upt)
  finally have m: "map (row_of (advance 3 r)) [0..<n] = map (row_of r) [Suc 0..<Suc n]" .
  have u: "[0..<Suc n] = 0 # [Suc 0..<Suc n]"
    by (simp add: upt_rec)
  have "for_range (Suc n) (data, r) = for_range n (data @ [row_of r 0], advance 3 r)"
    by (simp add: loop_body_eq)
  also have "\<dots> = Inr ((data @ [row_of r 0]) @ map (row_of (advance 3 r)) [0..<n],
                      advance (3 * n) (advance 3 r))"
    by (rule Suc.IH)
  also have "\<dots> = Inr (data @ map (row_of r) [0..<Suc n], advance (3 * Suc n) r)"
    by (simp only: m u advance_advance) simp
  finally show ?case .
qed

lemma generate_eq:
  "generate r = Inr (header # map (row_of r) [0..<50], advance 150 r)"
  by (simp add: generate_def for_range_eq)

lemma table_eq: "table r = header # map (row_of r) [0..<50]"
  by (simp add: table_def generate_eq)

subsection \<open>No field ever needs quoting\<close>

lemma str_nat_digits: "set (str_nat n) \<subseteq> set ''0123456789''"
proof (induction n rule: str_nat.induct)
  case (1 n)
  have d: "\<And>k. k < 10 \<Longrightarrow> digit k \<in> set ''0123456789''"
    unfolding digit_def by (rule nth_mem) simp
  show ?case
  proof (cases "n < 10")
    case True
    then show ?thesis using d[of n] by (subst str_nat.simps) simp
  next
    case False
    have "n mod 10 < 10" by simp
    with False 1 d[of "n mod 10"] show ?thesis
      by (subst str_nat.simps) simp
  qed
qed

lemma plain_str_int: "\<not> needs_quote (str_int i)"
proof -
  have "\<And>n c. c \<in> set (str_nat n) \<Longrightarrow> c \<noteq> delimiter \<and> c \<noteq> quotechar \<and> c \<noteq> CR \<and> c \<noteq> LF"
    using str_nat_digits by (auto simp: delimiter_def quotechar_def CR_def LF_def)
  then show ?thesis
    by (auto simp: needs_quote_def str_int_def list_ex_iff lineterminator_def
        delimiter_def quotechar_def CR_def LF_def)
qed

lemma plain_nombres: "s \<in> set nombres \<Longrightarrow> \<not> needs_quote s"
  by (auto simp: nombres_def needs_quote_def delimiter_def quotechar_def lineterminator_def CR_def LF_def)

lemma plain_ciudades: "s \<in> set ciudades \<Longrightarrow> \<not> needs_quote s"
  by (auto simp: ciudades_def needs_quote_def delimiter_def quotechar_def lineterminator_def CR_def LF_def)

lemma plain_header: "s \<in> set (map cell_text header) \<Longrightarrow> \<not> needs_quote s"
  by (auto simp: header_def needs_quote_def delimiter_def quotechar_def lineterminator_def CR_def LF_def)

lemma nombres_mem: "nombres ! (x mod 10) \<in> set nombres"
  by (rule nth_mem) (simp add: nombres_def)

lemma ciudades_mem: "ciudades ! (x mod 10) \<in> set ciudades"
  by (rule nth_mem) (simp add: ciudades_def)

lemma plain_row_of: "s \<in> set (map cell_text (row_of r k)) \<Longrightarrow> \<not> needs_quote s"
  using plain_nombres[OF nombres_mem] plain_ciudades[OF ciudades_mem] plain_str_int
  by (auto simp: row_of_def)

lemma table_rows: "row \<in> set (table r) \<Longrightarrow> row = header \<or> (\<exists>k<50. row = row_of r k)"
  by (auto simp: table_eq)

lemma plain_table: "row \<in> set (table r) \<Longrightarrow> s \<in> set (map cell_text row) \<Longrightarrow> \<not> needs_quote s"
  using plain_header plain_row_of by (blast dest: table_rows)

lemma csv_line_plain:
  assumes "\<And>s. s \<in> set (map cell_text row) \<Longrightarrow> \<not> needs_quote s" "length row = 3"
  shows "csv_line row = comma_join row @ [CR, LF]"
proof -
  have "\<And>c. c \<in> set row \<Longrightarrow> csv_field (cell_text c) = cell_text c"
    using assms(1) by (simp add: csv_field_def)
  then have m: "map csv_field (map cell_text row) = map cell_text row"
    by (induction row) simp_all
  have n: "map cell_text row \<noteq> [[]]"
  proof
    assume "map cell_text row = [[]]"
    then have "length (map cell_text row) = 1" by simp
    with assms(2) show False by simp
  qed
  show ?thesis
    by (simp only: csv_line_def comma_join_def lineterminator_def Let_def m n if_False)
qed

lemma join_mem: "c \<in> set (join d ts) \<Longrightarrow> c = d \<or> (\<exists>s\<in>set ts. c \<in> set s)"
  by (induction d ts rule: join.induct) auto

lemma comma_join_no_newline:
  assumes "\<And>s. s \<in> set (map cell_text row) \<Longrightarrow> \<not> needs_quote s"
  shows "CR \<notin> set (comma_join row) \<and> LF \<notin> set (comma_join row)"
proof -
  have f: "\<And>s c. s \<in> set (map cell_text row) \<Longrightarrow> c \<in> set s \<Longrightarrow> c \<noteq> CR \<and> c \<noteq> LF"
    using assms by (auto simp: needs_quote_def list_ex_iff lineterminator_def)
  have d: "delimiter \<noteq> CR \<and> delimiter \<noteq> LF"
    by (simp add: delimiter_def CR_def LF_def)
  have "c \<noteq> CR \<and> c \<noteq> LF" if "c \<in> set (comma_join row)" for c
  proof -
    from that have "c = delimiter \<or> (\<exists>s\<in>set (map cell_text row). c \<in> set s)"
      unfolding comma_join_def by (rule join_mem)
    then show ?thesis
    proof
      assume "c = delimiter"
      with d show ?thesis by simp
    next
      assume "\<exists>s\<in>set (map cell_text row). c \<in> set s"
      then obtain s where "s \<in> set (map cell_text row)" "c \<in> set s" ..
      then show ?thesis by (rule f)
    qed
  qed
  then show ?thesis by blast
qed

subsection \<open>Lines of the written text\<close>

lemma splitlines_from_line:
  "CR \<notin> set body \<Longrightarrow> LF \<notin> set body \<Longrightarrow>
   splitlines_from cur (body @ CR # LF # rest) = (cur @ body) # splitlines_from [] rest"
proof (induction body arbitrary: cur)
  case Nil
  show ?case by simp
next
  case (Cons b bs)
  then show ?case by (cases bs) auto
qed

lemma splitlines_lines:
  "(\<And>b. b \<in> set bodies \<Longrightarrow> CR \<notin> set b \<and> LF \<notin> set b) \<Longrightarrow>
   splitlines (concat (map (\<lambda>b. b @ [CR, LF]) bodies)) = bodies"
  unfolding splitlines_def by (induction bodies) (simp_all add: splitlines_from_line)


subsection \<open>Writing the rows\<close>

lemma translate_none: "translate_newlines pf (Some []) str = str"
  by (induction str) (simp_all add: translate_newlines_def)

lemma writerows_eq:
  "h_newline h = Some [] \<Longrightarrow>
   writerows h rows = h\<lparr>h_pending := h_pending h @ concat (map csv_line rows)\<rparr>"
proof (induction rows arbitrary: h)
  case Nil
  show ?case by simp
next
  case (Cons row rows)
  have "h_newline (writerow h row) = Some []"
    using Cons.prems by (simp add: writerow_def file_write_def)
  then have "writerows (writerow h row) rows =
      (writerow h row)\<lparr>h_pending := h_pending (writerow h row) @ concat (map csv_line rows)\<rparr>"
    by (rule Cons.IH)
  then show ?case
    using Cons.prems by (simp add: writerow_def file_write_def translate_none)
qed

lemma allowed_all: "enough b (length xs) \<Longrightarrow> allowed b xs = xs"
  by (cases b) simp_all

lemma length_table: "length (table r) = 51"
  by (simp add: table_eq)

lemma main_eq:
  "main r s =
     (if openable s filename
      then (if enough (space s) (length (concat (map csv_line (table r)))) then Inr ()
            else Inl OSError,
            s\<lparr>files := (files s)(filename \<mapsto>
                   allowed (space s) (concat (map csv_line (table r)))),
              space := map_option (\<lambda>n. n - length (concat (map csv_line (table r)))) (space s)\<rparr>)
      else (Inl OSError, s))"
proof (cases "openable s filename")
  case False
  then show ?thesis by (simp add: main_def generate_eq open_w_def)
next
  case True
  let ?h = "\<lparr>h_path = filename, h_newline = Some [], h_platform = platform s, h_pending = []\<rparr>"
  let ?s1 = "s\<lparr>files := (files s)(filename \<mapsto> [])\<rparr>"
  have w: "writerows ?h (table r) = ?h\<lparr>h_pending := h_pending ?h @ concat (map csv_line (table r))\<rparr>"
    by (rule writerows_eq) simp
  have "main r s = file_close (writerows ?h (table r)) ?s1"
    using True by (simp add: main_def generate_eq open_w_def table_eq)
  also have "\<dots> = file_close (?h\<lparr>h_pending := concat (map csv_line (table r))\<rparr>) ?s1"
    by (simp only: w) simp
  finally show ?thesis
    using True by (simp add: file_close_def content_def fun_eq_iff)
qed

lemma main_ok_iff:
  "fst (main r s) = Inr () \<longleftrightarrow>
   openable s filename \<and> enough (space s) (length (concat (map csv_line (table r))))"
  by (simp add: main_eq)

lemma main_file:
  "fst (main r s) = Inr () \<Longrightarrow>
   files (snd (main r s)) filename = Some (concat (map csv_line (table r)))"
  by (simp add: main_eq allowed_all split: if_splits)

lemma length_rows: "row \<in> set (table r) \<Longrightarrow> length row = 3"
  by (auto simp: table_eq header_def row_of_def)

lemma csv_line_table: "row \<in> set (table r) \<Longrightarrow> csv_line row = comma_join row @ [CR, LF]"
proof (rule csv_line_plain)
  fix s
  assume "row \<in> set (table r)" and "s \<in> set (map cell_text row)"
  then show "\<not> needs_quote s" by (rule plain_table)
next
  assume "row \<in> set (table r)"
  then show "length row = 3" by (rule length_rows)
qed

lemma concat_lines:
  "concat (map csv_line (table r)) = concat (map (\<lambda>b. b @ [CR, LF]) (map comma_join (table r)))"
  by (simp add: comp_def csv_line_table cong: map_cong)

lemma splitlines_table:
  "splitlines (concat (map csv_line (table r))) = map comma_join (table r)"
  unfolding concat_lines
proof (rule splitlines_lines)
  fix b
  assume "b \<in> set (map comma_join (table r))"
  then obtain row where row: "row \<in> set (table r)" and b: "b = comma_join row"
    by auto
  have "\<And>s. s \<in> set (map cell_text row) \<Longrightarrow> \<not> needs_quote s"
    using row by (rule plain_table)
  then show "CR \<notin> set b \<and> LF \<notin> set b"
    unfolding b by (rule comma_join_no_newline)
qed

lemma comma_join_header: "comma_join header = ''Nombre,Edad,Ciudad''"
  by (simp add: comma_join_def header_def delimiter_def)

lemma str_int_18: "str_int 18 = ''18''"
  by (simp add: str_int_def str_nat.simps[of 18] str_nat.simps[of 1] str_nat.simps[of "Suc 0"] digit_def)

subsection \<open>Rows, sources and files\<close>

lemma plain_chars:
  "\<not> needs_quote s \<Longrightarrow> c \<in> set s \<Longrightarrow>
   c \<noteq> CHR '','' \<and> c \<noteq> CHR 0x22 \<and> c \<noteq> CHR 0x0D \<and> c \<noteq> CHR 0x0A"
  by (auto simp: needs_quote_def list_ex_iff delimiter_def quotechar_def lineterminator_def
      CR_def LF_def)

lemma plain_field: "\<not> needs_quote s \<Longrightarrow> csv_field s = s"
  by (simp add: csv_field_def)

lemma row_of_shape:
  "\<exists>nombre edad ciudad. row_of r k = [PyStr nombre, PyInt edad, PyStr ciudad] \<and>
     nombre \<in> set nombres \<and> 18 \<le> edad \<and> edad \<le> 65 \<and> ciudad \<in> set ciudades"
proof -
  have "r (3 * k + 1) mod 48 < 48" by simp
  then have "18 + int (r (3 * k + 1) mod 48) \<le> 65" by linarith
  then show ?thesis
    using nombres_mem[of "r (3 * k)"] ciudades_mem[of "r (3 * k + 2)"]
    by (simp add: row_of_def)
qed

lemma nth_table: "k < 50 \<Longrightarrow> (header # map (row_of r) [0..<50]) ! Suc k = row_of r k"
  by simp

lemma table_cong: "\<forall>i<150. r1 i = r2 i \<Longrightarrow> table r1 = table r2"
proof -
  assume a: "\<forall>i<150. r1 i = r2 i"
  have "row_of r1 k = row_of r2 k" if "k < 50" for k
  proof -
    from that have "3 * k < 150" "3 * k + 1 < 150" "3 * k + 2 < 150" by simp_all
    with a show ?thesis by (simp add: row_of_def)
  qed
  then have "map (row_of r1) [0..<50] = map (row_of r2) [0..<50]"
    by simp
  then show ?thesis by (simp add: table_eq)
qed

lemma main_frame: "p \<noteq> filename \<Longrightarrow> files (snd (main r s)) p = files s p"
  by (simp add: main_eq)

lemma main_opened:
  "openable s filename \<Longrightarrow>
   files (snd (main r s)) filename =
     Some (allowed (space s) (concat (map csv_line (table r))))"
  by (simp add: main_eq)

subsection \<open>The length of the written text\<close>

lemma length_str_nat2: "10 \<le> n \<Longrightarrow> n < 100 \<Longrightarrow> length (str_nat n) = 2"
proof -
  assume a: "10 \<le> n" and b: "n < 100"
  from b have "n div 10 < 10" by simp
  with a show ?thesis
    by (simp add: str_nat.simps[of n] str_nat.simps[of "n div 10"])
qed

lemma length_age: "length (str_int (18 + int (x mod 48))) = 2"
proof -
  have "x mod 48 < 48" by simp
  then have "10 \<le> 18 + x mod 48" "18 + x mod 48 < 100" by simp_all
  then have "length (str_nat (18 + x mod 48)) = 2" by (rule length_str_nat2)
  moreover have "nat (18 + int (x mod 48)) = 18 + x mod 48" by simp
  ultimately show ?thesis by (simp add: str_int_def)
qed

lemma length_nombre: "length (nombres ! (x mod 10)) \<le> 6"
proof -
  have "\<forall>s\<in>set nombres. length s \<le> 6" by (simp add: nombres_def)
  with nombres_mem[of x] show ?thesis by blast
qed

lemma length_ciudad: "length (ciudades ! (x mod 10)) \<le> 9"
proof -
  have "\<forall>s\<in>set ciudades. length s \<le> 9" by (simp add: ciudades_def)
  with ciudades_mem[of x] show ?thesis by blast
qed

lemma length_data_line: "length (csv_line (row_of r k)) \<le> 21"
proof -
  have p: "\<And>s. s \<in> set (map cell_text (row_of r k)) \<Longrightarrow> \<not> needs_quote s"
    by (rule plain_row_of)
  have "length (row_of r k) = 3" by (simp add: row_of_def)
  with p have "csv_line (row_of r k) = comma_join (row_of r k) @ [CR, LF]"
    by (rule csv_line_plain)
  moreover have "length (comma_join (row_of r k)) \<le> 19"
    using length_nombre[of "r (3 * k)"] length_age[of "r (3 * k + 1)"]
      length_ciudad[of "r (3 * k + 2)"]
    by (simp add: comma_join_def row_of_def)
  ultimately show ?thesis by simp
qed

lemma length_header_line: "length (csv_line header) = 20"
  using csv_line_table[of header r] by (simp add: table_eq comma_join_header)

lemma length_concat_le:
  "(\<And>x. x \<in> set xs \<Longrightarrow> length (f x) \<le> c) \<Longrightarrow> length (concat (map f xs)) \<le> length xs * c"
proof (induction xs)
  case Nil
  show ?case by simp
next
  case (Cons x xs)
  have "length (f x) \<le> c" by (rule Cons.prems) simp
  moreover have "length (concat (map f xs)) \<le> length xs * c"
    by (rule Cons.IH) (simp add: Cons.prems)
  ultimately show ?case by simp
qed

lemma text_length:
  "20 \<le> length (concat (map csv_line (table r))) \<and>
   length (concat (map csv_line (table r))) \<le> 1070"
proof -
  have "length (concat (map csv_line (map (row_of r) [0..<50]))) \<le>
        length (map (row_of r) [0..<50]) * 21"
    by (rule length_concat_le) (auto simp: length_data_line)
  then have "length (concat (map csv_line (map (row_of r) [0..<50]))) \<le> 1050"
    by simp
  moreover have "concat (map csv_line (table r)) =
      csv_line header @ concat (map csv_line (map (row_of r) [0..<50]))"
    by (simp only: table_eq list.map concat.simps)
  ultimately show ?thesis
    by (simp only: length_append length_header_line) simp
qed

lemma text_fits: "length (concat (map csv_line (table r))) < chunk_size"
  using text_length[of r] by (simp add: chunk_size_def)

lemma main_roomy:
  "openable s filename \<Longrightarrow> space s = Some n \<Longrightarrow> 1070 \<le> n \<Longrightarrow> fst (main r s) = Inr ()"
  using text_length[of r] by (simp add: main_ok_iff)

section \<open>Properties\<close>

subsection \<open>The header line\<close>

text \<open>
  C1 (as amended). In every run that ends without an error, the first row of the table is
  the three labels \<^verbatim>\<open>Nombre\<close>, \<^verbatim>\<open>Edad\<close>, \<^verbatim>\<open>Ciudad\<close>, and the first line of
  \<^verbatim>\<open>personas.csv\<close> is exactly \<^verbatim>\<open>Nombre,Edad,Ciudad\<close>, whatever the random source draws.
\<close>

theorem header_line:
  assumes "fst (main r s) = Inr ()"
  shows "\<exists>data r' out. generate r = Inr (data, r') \<and>
           hd data = [PyStr ''Nombre'', PyStr ''Edad'', PyStr ''Ciudad''] \<and>
           files (snd (main r s)) filename = Some out \<and>
           hd (splitlines out) = ''Nombre,Edad,Ciudad''"
proof -
  have "hd (splitlines (concat (map csv_line (table r)))) = ''Nombre,Edad,Ciudad''"
    by (simp only: splitlines_table) (simp add: table_eq comma_join_header)
  moreover have "hd (header # map (row_of r) [0..<50]) = [PyStr ''Nombre'', PyStr ''Edad'', PyStr ''Ciudad'']"
    by (simp add: header_def)
  ultimately show ?thesis
    using main_file[OF assms] generate_eq[of r] by blast
qed

theorem header_line_witness:
  "fst (main counting (empty_disk Posix)) = Inr () \<and>
   (\<exists>data r' out. generate counting = Inr (data, r') \<and>
      hd data = [PyStr ''Nombre'', PyStr ''Edad'', PyStr ''Ciudad''] \<and>
      files (snd (main counting (empty_disk Posix))) filename = Some out \<and>
      hd (splitlines out) = ''Nombre,Edad,Ciudad'')"
proof -
  have ok: "fst (main counting (empty_disk Posix)) = Inr ()"
    by (simp add: main_ok_iff empty_disk_def disk_def)
  show ?thesis using ok header_line[OF ok] by simp
qed

text \<open>
  C1 as stated asks for the header \<^verbatim>\<open>Name,Age,City\<close>. The run on the all-zero source and
  an empty disk succeeds, and neither the first row of its table nor the first line of its
  file is that header.
\<close>

theorem header_line_english_counterexample:
  "fst (main zeros (empty_disk Posix)) = Inr () \<and>
   hd (table zeros) \<noteq> [PyStr ''Name'', PyStr ''Age'', PyStr ''City''] \<and>
   hd (splitlines (content (snd (main zeros (empty_disk Posix))) filename)) \<noteq> ''Name,Age,City''"
proof -
  have ok: "fst (main zeros (empty_disk Posix)) = Inr ()"
    by (simp add: main_ok_iff empty_disk_def disk_def)
  have "content (snd (main zeros (empty_disk Posix))) filename = concat (map csv_line (table zeros))"
    using main_file[OF ok] by (simp add: content_def)
  then have "hd (splitlines (content (snd (main zeros (empty_disk Posix))) filename)) = ''Nombre,Edad,Ciudad''"
    by (simp only: splitlines_table) (simp add: table_eq comma_join_header)
  moreover have "hd (table zeros) \<noteq> [PyStr ''Name'', PyStr ''Age'', PyStr ''City'']"
    by (simp add: table_eq header_def)
  ultimately show ?thesis using ok by simp
qed

subsection \<open>The number of lines\<close>

text \<open>
  C2. In every run that ends without an error, whatever the random source draws, the table
  has 51 rows, the header first and 50 data rows after it, and the file has exactly 51
  lines, which are the comma-joined rows of the table in order.
\<close>

theorem fifty_one_lines:
  assumes "fst (main r s) = Inr ()"
  shows "\<exists>data r' out. generate r = Inr (data, r') \<and>
           length data = 51 \<and> hd data = header \<and> length (tl data) = 50 \<and>
           files (snd (main r s)) filename = Some out \<and>
           splitlines out = map comma_join data \<and> length (splitlines out) = 51"
proof -
  let ?data = "header # map (row_of r) [0..<50]"
  have "length ?data = 51" "hd ?data = header" "length (tl ?data) = 50"
    by simp_all
  moreover have "splitlines (concat (map csv_line (table r))) = map comma_join ?data"
    by (metis splitlines_table table_eq)
  moreover from this have "length (splitlines (concat (map csv_line (table r)))) = 51"
    by simp
  ultimately show ?thesis
    using main_file[OF assms] generate_eq[of r] by blast
qed

theorem fifty_one_lines_witness:
  "fst (main counting (empty_disk Windows)) = Inr () \<and>
   (\<exists>data r' out. generate counting = Inr (data, r') \<and>
      length data = 51 \<and> hd data = header \<and> length (tl data) = 50 \<and>
      files (snd (main counting (empty_disk Windows))) filename = Some out \<and>
      splitlines out = map comma_join data \<and> length (splitlines out) = 51)"
proof -
  have ok: "fst (main counting (empty_disk Windows)) = Inr ()"
    by (simp add: main_ok_iff empty_disk_def disk_def)
  show ?thesis using ok fifty_one_lines[OF ok] by simp
qed

subsection \<open>A fixed random source\<close>

text \<open>
  C4. If the random source is such that, wherever it stands, a selection from the name
  list returns its first element, an age draw over 18..65 returns 18 and a selection from
  the city list returns its first element, then the first data row is
  \<^verbatim>\<open>Juan,18,Madrid\<close>: as a row of the table, as a comma-joined line and as the line the
  csv writer emits.
\<close>

theorem first_row_fixed_source:
  assumes "\<forall>p. \<exists>r'. random_choice (advance p r) nombres = Inr (hd nombres, r')"
    and "\<forall>p. \<exists>r'. random_randint (advance p r) 18 65 = Inr (18, r')"
    and "\<forall>p. \<exists>r'. random_choice (advance p r) ciudades = Inr (hd ciudades, r')"
  shows "\<exists>data r'. generate r = Inr (data, r') \<and>
           data ! 1 = [PyStr ''Juan'', PyInt 18, PyStr ''Madrid''] \<and>
           comma_join (data ! 1) = ''Juan,18,Madrid'' \<and>
           csv_line (data ! 1) = ''Juan,18,Madrid'' @ lineterminator"
proof -
  have ln: "length nombres = 10" and lc: "length ciudades = 10"
    by (simp_all add: nombres_def ciudades_def)
  from assms(1) obtain r1 where "random_choice (advance 0 r) nombres = Inr (hd nombres, r1)"
    by blast
  then have n: "nombres ! (r 0 mod 10) = ''Juan''"
    by (simp add: random_choice_def randbelow_def advance_def ln) (simp add: nombres_def)
  from assms(2) obtain r2 where "random_randint (advance 1 r) 18 65 = Inr (18, r2)"
    by blast
  then have e: "r (Suc 0) mod 48 = 0"
    by (simp add: random_randint_def randbelow_def advance_def Let_def)
  from assms(3) obtain r3 where "random_choice (advance 2 r) ciudades = Inr (hd ciudades, r3)"
    by blast
  then have c: "ciudades ! (r (Suc (Suc 0)) mod 10) = ''Madrid''"
    by (simp add: random_choice_def randbelow_def advance_def lc) (simp add: ciudades_def)
  have row: "row_of r 0 = [PyStr ''Juan'', PyInt 18, PyStr ''Madrid'']"
    by (simp add: row_of_def n e c)
  have cj: "comma_join (row_of r 0) = ''Juan,18,Madrid''"
    by (simp add: row comma_join_def str_int_18 delimiter_def)
  have "row_of r 0 \<in> set (table r)"
    by (simp add: table_eq)
  then have "csv_line (row_of r 0) = comma_join (row_of r 0) @ [CR, LF]"
    by (rule csv_line_table)
  then have cl: "csv_line (row_of r 0) = ''Juan,18,Madrid'' @ lineterminator"
    by (simp only: cj lineterminator_def)
  have "(header # map (row_of r) [0..<50]) ! 1 = row_of r 0"
    by (simp add: upt_rec)
  with row cj cl show ?thesis
    using generate_eq[of r] by simp
qed

theorem first_row_fixed_source_witness:
  "(\<forall>p. \<exists>r'. random_choice (advance p zeros) nombres = Inr (hd nombres, r')) \<and>
   (\<forall>p. \<exists>r'. random_randint (advance p zeros) 18 65 = Inr (18, r')) \<and>
   (\<forall>p. \<exists>r'. random_choice (advance p zeros) ciudades = Inr (hd ciudades, r')) \<and>
   (\<exists>data r'. generate zeros = Inr (data, r') \<and>
      data ! 1 = [PyStr ''Juan'', PyInt 18, PyStr ''Madrid''] \<and>
      comma_join (data ! 1) = ''Juan,18,Madrid'' \<and>
      csv_line (data ! 1) = ''Juan,18,Madrid'' @ lineterminator)"
proof -
  have a: "\<forall>p. \<exists>r'. random_choice (advance p zeros) nombres = Inr (hd nombres, r')"
    by (simp add: random_choice_def randbelow_def advance_def zeros_def nombres_def)
  have b: "\<forall>p. \<exists>r'. random_randint (advance p zeros) 18 65 = Inr (18, r')"
    by (simp add: random_randint_def randbelow_def advance_def zeros_def Let_def)
  have c: "\<forall>p. \<exists>r'. random_choice (advance p zeros) ciudades = Inr (hd ciudades, r')"
    by (simp add: random_choice_def randbelow_def advance_def zeros_def ciudades_def)
  show ?thesis using a b c first_row_fixed_source[OF a b c] by simp
qed

subsection \<open>The order of the draws\<close>

text \<open>
  C10. Each pass of the loop takes exactly three draws from the source, and the whole loop
  150. Data row \<open>k\<close> (from 1 to 50) is made of draws \<open>3k-2\<close>, \<open>3k-1\<close> and \<open>3k\<close>, in the
  order name, age, city.
\<close>

theorem three_draws_per_row:
  "(\<forall>data. \<exists>row. loop_body (data, r) = Inr (data @ [row], advance 3 r)) \<and>
   (\<exists>data. generate r = Inr (data, advance 150 r) \<and>
      (\<forall>k. 1 \<le> k \<and> k \<le> 50 \<longrightarrow>
         data ! k = [PyStr (nombres ! (nth_draw r (3 * k - 2) mod 10)),
                     PyInt (18 + int (nth_draw r (3 * k - 1) mod 48)),
                     PyStr (ciudades ! (nth_draw r (3 * k) mod 10))]))"
proof -
  have "(header # map (row_of r) [0..<50]) ! k =
          [PyStr (nombres ! (nth_draw r (3 * k - 2) mod 10)),
           PyInt (18 + int (nth_draw r (3 * k - 1) mod 48)),
           PyStr (ciudades ! (nth_draw r (3 * k) mod 10))]"
    if "1 \<le> k \<and> k \<le> 50" for k
  proof -
    from that obtain j where k: "k = Suc j" and j: "j < 50"
      by (cases k) auto
    have i: "3 * Suc j - 2 - 1 = 3 * j" "3 * Suc j - 1 - 1 = 3 * j + 1" "3 * Suc j - 1 = 3 * j + 2"
      by simp_all
    show ?thesis
      using j by (simp add: k row_of_def nth_draw_def i)
  qed
  then show ?thesis
    using generate_eq[of r] loop_body_eq[of _ r] by auto
qed

theorem three_draws_per_row_witness:
  "\<exists>data. generate counting = Inr (data, advance 150 counting) \<and>
      data ! 2 = [PyStr ''Pedro'', PyInt 49, PyStr ''Murcia'']"
proof -
  from three_draws_per_row[of counting] obtain data where
    g: "generate counting = Inr (data, advance 150 counting)" and
    d: "\<forall>k. 1 \<le> k \<and> k \<le> 50 \<longrightarrow>
         data ! k = [PyStr (nombres ! (nth_draw counting (3 * k - 2) mod 10)),
                     PyInt (18 + int (nth_draw counting (3 * k - 1) mod 48)),
                     PyStr (ciudades ! (nth_draw counting (3 * k) mod 10))]"
    by blast
  from d have "data ! 2 = [PyStr (nombres ! (nth_draw counting (3 * 2 - 2) mod 10)),
                     PyInt (18 + int (nth_draw counting (3 * 2 - 1) mod 48)),
                     PyStr (ciudades ! (nth_draw counting (3 * 2) mod 10))]"
    by simp
  then have "data ! 2 = [PyStr ''Pedro'', PyInt 49, PyStr ''Murcia'']"
    by (simp add: nth_draw_def counting_def nombres_def ciudades_def)
  with g show ?thesis by blast
qed

subsection \<open>The fields of a data row\<close>

text \<open>
  C3. The name list and the city list have 10 distinct elements each. In every run, each
  of the 50 data rows is a name of the name list, an integer age between 18 and 65, and a
  city of the city list. Every age from 18 to 65, the two ends included, is produced by
  some random source.
\<close>

theorem data_rows_in_range:
  "length nombres = 10 \<and> distinct nombres \<and> length ciudades = 10 \<and> distinct ciudades \<and>
   (\<exists>data r'. generate r = Inr (data, r') \<and> length data = 51 \<and>
      (\<forall>k. 1 \<le> k \<and> k \<le> 50 \<longrightarrow>
         (\<exists>nombre edad ciudad. data ! k = [PyStr nombre, PyInt edad, PyStr ciudad] \<and>
            nombre \<in> set nombres \<and> 18 \<le> edad \<and> edad \<le> 65 \<and> ciudad \<in> set ciudades))) \<and>
   (\<forall>edad. 18 \<le> edad \<and> edad \<le> 65 \<longrightarrow>
      (\<exists>r0 data r'. generate r0 = Inr (data, r') \<and>
         (\<forall>k. 1 \<le> k \<and> k \<le> 50 \<longrightarrow> (\<exists>nombre ciudad. data ! k = [PyStr nombre, PyInt edad, PyStr ciudad]))))"
proof -
  have lists: "length nombres = 10 \<and> distinct nombres \<and> length ciudades = 10 \<and> distinct ciudades"
    by (simp add: nombres_def ciudades_def)
  have rows: "\<exists>nombre edad ciudad.
        (header # map (row_of r) [0..<50]) ! k = [PyStr nombre, PyInt edad, PyStr ciudad] \<and>
        nombre \<in> set nombres \<and> 18 \<le> edad \<and> edad \<le> 65 \<and> ciudad \<in> set ciudades"
    if "1 \<le> k \<and> k \<le> 50" for k
  proof -
    from that obtain j where k: "k = Suc j" and j: "j < 50"
      by (cases k) auto
    show ?thesis
      unfolding k nth_table[OF j] by (rule row_of_shape)
  qed
  have attain: "\<exists>r0 data r'. generate r0 = Inr (data, r') \<and>
         (\<forall>k. 1 \<le> k \<and> k \<le> 50 \<longrightarrow> (\<exists>nombre ciudad. data ! k = [PyStr nombre, PyInt edad, PyStr ciudad]))"
    if e: "18 \<le> edad \<and> edad \<le> 65" for edad
  proof -
    let ?r0 = "\<lambda>i::nat. nat (edad - 18)"
    have "nat (edad - 18) < 48"
      using e by linarith
    then have m: "nat (edad - 18) mod 48 = nat (edad - 18)"
      by (rule mod_less)
    have "18 + int (nat (edad - 18)) = edad"
      using e by simp
    then have shape: "\<exists>nombre ciudad. row_of ?r0 j = [PyStr nombre, PyInt edad, PyStr ciudad]" for j
      by (simp add: row_of_def m)
    have "\<exists>nombre ciudad. (header # map (row_of ?r0) [0..<50]) ! k = [PyStr nombre, PyInt edad, PyStr ciudad]"
      if "1 \<le> k \<and> k \<le> 50" for k
    proof -
      from that obtain j where k: "k = Suc j" and j: "j < 50"
        by (cases k) auto
      show ?thesis
        unfolding k nth_table[OF j] by (rule shape)
    qed
    then show ?thesis
      using generate_eq[of ?r0] by blast
  qed
  have "length (header # map (row_of r) [0..<50]) = 51" by simp
  with rows have "\<exists>data r'. generate r = Inr (data, r') \<and> length data = 51 \<and>
      (\<forall>k. 1 \<le> k \<and> k \<le> 50 \<longrightarrow>
         (\<exists>nombre edad ciudad. data ! k = [PyStr nombre, PyInt edad, PyStr ciudad] \<and>
            nombre \<in> set nombres \<and> 18 \<le> edad \<and> edad \<le> 65 \<and> ciudad \<in> set ciudades))"
    using generate_eq[of r] by blast
  with lists attain show ?thesis by blast
qed

theorem data_rows_in_range_witness:
  "(\<exists>data r' nombre edad ciudad. generate counting = Inr (data, r') \<and>
      data ! 3 = [PyStr nombre, PyInt edad, PyStr ciudad] \<and>
      nombre \<in> set nombres \<and> 18 \<le> edad \<and> edad \<le> 65 \<and> ciudad \<in> set ciudades) \<and>
   (\<exists>r0 data r' nombre ciudad. generate r0 = Inr (data, r') \<and>
      data ! 1 = [PyStr nombre, PyInt 18, PyStr ciudad]) \<and>
   (\<exists>r0 data r' nombre ciudad. generate r0 = Inr (data, r') \<and>
      data ! 1 = [PyStr nombre, PyInt 65, PyStr ciudad])"
proof -
  note t = data_rows_in_range[of counting]
  from t obtain data r' where g: "generate counting = Inr (data, r')" and
    rows: "\<forall>k. 1 \<le> k \<and> k \<le> 50 \<longrightarrow>
         (\<exists>nombre edad ciudad. data ! k = [PyStr nombre, PyInt edad, PyStr ciudad] \<and>
            nombre \<in> set nombres \<and> 18 \<le> edad \<and> edad \<le> 65 \<and> ciudad \<in> set ciudades)"
    by blast
  have "(1::nat) \<le> 3 \<and> (3::nat) \<le> 50" by simp
  with rows have a: "\<exists>nombre edad ciudad. data ! 3 = [PyStr nombre, PyInt edad, PyStr ciudad] \<and>
            nombre \<in> set nombres \<and> 18 \<le> edad \<and> edad \<le> 65 \<and> ciudad \<in> set ciudades"
    by blast
  from t have att: "\<forall>edad. 18 \<le> edad \<and> edad \<le> 65 \<longrightarrow>
      (\<exists>r0 data r'. generate r0 = Inr (data, r') \<and>
         (\<forall>k. 1 \<le> k \<and> k \<le> 50 \<longrightarrow> (\<exists>nombre ciudad. data ! k = [PyStr nombre, PyInt edad, PyStr ciudad])))"
    by blast
  have one: "(1::nat) \<le> 1 \<and> (1::nat) \<le> 50" by simp
  have "(18::int) \<le> 18 \<and> (18::int) \<le> 65" by simp
  with att one have b: "\<exists>r0 data r' nombre ciudad. generate r0 = Inr (data, r') \<and>
      data ! 1 = [PyStr nombre, PyInt 18, PyStr ciudad]"
    by meson
  have "(18::int) \<le> 65 \<and> (65::int) \<le> 65" by simp
  with att one have c: "\<exists>r0 data r' nombre ciudad. generate r0 = Inr (data, r') \<and>
      data ! 1 = [PyStr nombre, PyInt 65, PyStr ciudad]"
    by meson
  from g a b c show ?thesis by blast
qed

subsection \<open>Determinism\<close>

text \<open>
  C5. Two runs whose random sources give the same first 150 draws have the same outcome on
  the same disk, and when both end without an error they leave the same bytes in
  \<^verbatim>\<open>personas.csv\<close>, whatever the platform, the former content of the file or the rest of
  the disk: the file is a function of the draws alone.
\<close>

theorem same_draws_same_file:
  assumes "\<forall>i<150. r1 i = r2 i"
  shows "main r1 s = main r2 s \<and>
         (fst (main r1 s1) = Inr () \<and> fst (main r2 s2) = Inr () \<longrightarrow>
            files (snd (main r1 s1)) filename = files (snd (main r2 s2)) filename)"
proof -
  have t: "table r1 = table r2"
    using assms by (rule table_cong)
  have "main r1 s = main r2 s"
    by (simp only: main_eq t)
  moreover have "files (snd (main r1 s1)) filename = files (snd (main r2 s2)) filename"
    if "fst (main r1 s1) = Inr () \<and> fst (main r2 s2) = Inr ()"
    using that by (simp add: main_file t)
  ultimately show ?thesis by blast
qed

theorem same_draws_same_file_witness:
  "map zeros [0..<150] = map zeros_then_ones [0..<150] \<and>
   zeros 150 \<noteq> zeros_then_ones 150 \<and>
   main zeros full_disk = main zeros_then_ones full_disk \<and>
   fst (main zeros (empty_disk Posix)) = Inr () \<and>
   fst (main zeros_then_ones used_disk) = Inr () \<and>
   files (snd (main zeros (empty_disk Posix))) filename =
     files (snd (main zeros_then_ones used_disk)) filename"
proof -
  have a: "\<forall>i<150. zeros i = zeros_then_ones i"
    by (simp add: zeros_def zeros_then_ones_def)
  have b: "fst (main zeros (empty_disk Posix)) = Inr ()"
    by (simp add: main_ok_iff empty_disk_def disk_def)
  have c: "fst (main zeros_then_ones used_disk) = Inr ()"
    by (rule main_roomy[of _ 5000]) (simp_all add: used_disk_def disk_def)
  have d: "map zeros [0..<150] = map zeros_then_ones [0..<150] \<and>
           zeros 150 \<noteq> zeros_then_ones 150"
    by (simp add: zeros_def zeros_then_ones_def)
  show ?thesis
    using b c d same_draws_same_file[OF a, of full_disk "empty_disk Posix" used_disk] by simp
qed

subsection \<open>The line terminator\<close>

text \<open>
  C6 (as amended). In every run that ends without an error, on every platform, each row is
  written as its comma-joined fields followed by CR LF, the terminator of the csv writer:
  the file is opened with \<^verbatim>\<open>newline=''\<close>, so nothing is translated. CR LF is the native
  newline of Windows and not that of Posix.
\<close>

theorem lines_end_with_crlf:
  assumes "fst (main r s) = Inr ()"
  shows "\<exists>data r'. generate r = Inr (data, r') \<and>
           files (snd (main r s)) filename =
             Some (concat (map (\<lambda>row. comma_join row @ [CR, LF]) data)) \<and>
           (\<forall>row\<in>set data. csv_line row = comma_join row @ [CR, LF]) \<and>
           [CR, LF] = os_linesep Windows \<and> [CR, LF] \<noteq> os_linesep Posix"
proof -
  have g: "generate r = Inr (table r, advance 150 r)"
    by (simp add: generate_eq table_eq)
  have "concat (map csv_line (table r)) = concat (map (\<lambda>row. comma_join row @ [CR, LF]) (table r))"
    by (simp add: csv_line_table cong: map_cong)
  with main_file[OF assms] have
    f: "files (snd (main r s)) filename = Some (concat (map (\<lambda>row. comma_join row @ [CR, LF]) (table r)))"
    by simp
  have l: "\<forall>row\<in>set (table r). csv_line row = comma_join row @ [CR, LF]"
    by (simp add: csv_line_table)
  have "[CR, LF] = os_linesep Windows \<and> [CR, LF] \<noteq> os_linesep Posix"
    by simp
  with g f l show ?thesis by blast
qed

theorem lines_end_with_crlf_witness:
  "fst (main counting (empty_disk Posix)) = Inr () \<and>
   (\<exists>data r'. generate counting = Inr (data, r') \<and>
      files (snd (main counting (empty_disk Posix))) filename =
        Some (concat (map (\<lambda>row. comma_join row @ [CR, LF]) data)) \<and>
      header \<in> set data \<and> csv_line header = comma_join header @ [CR, LF])"
proof -
  have ok: "fst (main counting (empty_disk Posix)) = Inr ()"
    by (simp add: main_ok_iff empty_disk_def disk_def)
  from lines_end_with_crlf[OF ok] obtain data r' where
    g: "generate counting = Inr (data, r')" and
    f: "files (snd (main counting (empty_disk Posix))) filename =
        Some (concat (map (\<lambda>row. comma_join row @ [CR, LF]) data))" and
    l: "\<forall>row\<in>set data. csv_line row = comma_join row @ [CR, LF]"
    by blast
  from g have h: "header \<in> set data"
    by (auto simp: generate_eq)
  with l have "csv_line header = comma_join header @ [CR, LF]"
    by blast
  with ok g f h show ?thesis by blast
qed

text \<open>
  C6 as stated asks for the native newline on every platform. On Posix that is LF; the run
  on the all-zero source and an empty Posix disk succeeds, its header line ends with CR LF,
  and its file differs from the text with native newlines.
\<close>

theorem native_newline_counterexample:
  "fst (main zeros (empty_disk Posix)) = Inr () \<and>
   csv_line header \<noteq> comma_join header @ os_linesep Posix \<and>
   content (snd (main zeros (empty_disk Posix))) filename \<noteq>
     spec_native_lines Posix (table zeros)"
proof -
  have ok: "fst (main zeros (empty_disk Posix)) = Inr ()"
    by (simp add: main_ok_iff empty_disk_def disk_def)
  have h: "csv_line header = ''Nombre,Edad,Ciudad'' @ [CR, LF]"
    using csv_line_table[of header zeros] by (simp add: table_eq comma_join_header)
  have ne: "CR \<noteq> LF"
    by (simp add: CR_def LF_def)
  have a: "csv_line header \<noteq> comma_join header @ os_linesep Posix"
    using ne by (simp add: h comma_join_header)
  have "content (snd (main zeros (empty_disk Posix))) filename = concat (map csv_line (table zeros))"
    using main_file[OF ok] by (simp add: content_def)
  moreover have "concat (map csv_line (table zeros)) \<noteq> spec_native_lines Posix (table zeros)"
    using ne by (simp add: table_eq spec_native_lines_def h comma_join_header)
  ultimately show ?thesis using ok a by simp
qed

subsection \<open>Failure of the output\<close>

text \<open>
  C7. If the output path cannot be opened, the run ends with the I/O error and leaves the
  disk as it was. If it can, the writes of the 51 rows only fill the buffer of the file,
  which is larger than their text, and the outcome of the run is the outcome of the one
  close of the file on that text: when the disk does not take the text, the close raises
  the I/O error and the run ends with it, nothing being tried again. The run succeeds
  exactly when the path can be opened and the disk takes the text; the exit status is 0
  then and 1 otherwise.
\<close>

theorem io_error_ends_run:
  "(\<not> openable s filename \<longrightarrow> main r s = (Inl OSError, s)) \<and>
   (openable s filename \<longrightarrow>
      length (concat (map csv_line (table r))) < chunk_size \<and>
      main r s =
        file_close
          \<lparr>h_path = filename, h_newline = Some [], h_platform = platform s,
             h_pending = concat (map csv_line (table r))\<rparr>
          (s\<lparr>files := (files s)(filename \<mapsto> [])\<rparr>)) \<and>
   (openable s filename \<and> \<not> enough (space s) (length (concat (map csv_line (table r)))) \<longrightarrow>
      fst (main r s) = Inl OSError) \<and>
   (fst (main r s) = Inr () \<longleftrightarrow>
      openable s filename \<and> enough (space s) (length (concat (map csv_line (table r))))) \<and>
   exit_status (fst (main r s)) =
     (if openable s filename \<and> enough (space s) (length (concat (map csv_line (table r))))
      then 0 else 1)"
proof -
  have a: "\<not> openable s filename \<longrightarrow> main r s = (Inl OSError, s)"
    by (simp add: main_eq)
  have b: "openable s filename \<longrightarrow>
      main r s =
        file_close
          \<lparr>h_path = filename, h_newline = Some [], h_platform = platform s,
             h_pending = concat (map csv_line (table r))\<rparr>
          (s\<lparr>files := (files s)(filename \<mapsto> [])\<rparr>)"
    by (simp add: main_eq file_close_def content_def fun_eq_iff)
  have c: "openable s filename \<and> \<not> enough (space s) (length (concat (map csv_line (table r)))) \<longrightarrow>
      fst (main r s) = Inl OSError"
    by (simp add: main_eq)
  have d: "fst (main r s) = Inr () \<longleftrightarrow>
      openable s filename \<and> enough (space s) (length (concat (map csv_line (table r))))"
    by (rule main_ok_iff)
  have e: "exit_status (fst (main r s)) =
     (if openable s filename \<and> enough (space s) (length (concat (map csv_line (table r))))
      then 0 else 1)"
    by (simp add: main_eq)
  from a b c d e text_fits[of r] show ?thesis by blast
qed

theorem io_error_ends_run_witness:
  "\<not> openable readonly_disk filename \<and>
   main counting readonly_disk = (Inl OSError, readonly_disk) \<and>
   exit_status (fst (main counting readonly_disk)) = 1 \<and>
   openable full_disk filename \<and> space full_disk = Some 3 \<and>
   fst (main counting full_disk) = Inl OSError \<and>
   exit_status (fst (main counting full_disk)) = 1 \<and>
   openable (empty_disk Posix) filename \<and>
   fst (main counting (empty_disk Posix)) = Inr () \<and>
   exit_status (fst (main counting (empty_disk Posix))) = 0"
proof -
  have a: "\<not> openable readonly_disk filename"
    by (simp add: readonly_disk_def)
  have b: "openable full_disk filename \<and> space full_disk = Some 3"
    by (simp add: full_disk_def disk_def)
  have c: "openable (empty_disk Posix) filename \<and> space (empty_disk Posix) = None"
    by (simp add: empty_disk_def disk_def)
  have "3 < length (concat (map csv_line (table counting)))"
    using text_length[of counting] by simp
  with b have n: "\<not> enough (space full_disk) (length (concat (map csv_line (table counting))))"
    by simp
  let ?len = "length (concat (map csv_line (table counting)))"
  from io_error_ends_run[of readonly_disk counting] have
    r1: "\<not> openable readonly_disk filename \<longrightarrow>
           main counting readonly_disk = (Inl OSError, readonly_disk)" and
    r2: "exit_status (fst (main counting readonly_disk)) =
           (if openable readonly_disk filename \<and> enough (space readonly_disk) ?len then 0 else 1)"
    by blast+
  from io_error_ends_run[of full_disk counting] have
    f1: "openable full_disk filename \<and> \<not> enough (space full_disk) ?len \<longrightarrow>
           fst (main counting full_disk) = Inl OSError" and
    f2: "exit_status (fst (main counting full_disk)) =
           (if openable full_disk filename \<and> enough (space full_disk) ?len then 0 else 1)"
    by blast+
  from io_error_ends_run[of "empty_disk Posix" counting] have
    e1: "fst (main counting (empty_disk Posix)) = Inr () \<longleftrightarrow>
           openable (empty_disk Posix) filename \<and> enough (space (empty_disk Posix)) ?len" and
    e2: "exit_status (fst (main counting (empty_disk Posix))) =
           (if openable (empty_disk Posix) filename \<and> enough (space (empty_disk Posix)) ?len
            then 0 else 1)"
    by blast+
  from a r1 r2 have x: "main counting readonly_disk = (Inl OSError, readonly_disk) \<and>
      exit_status (fst (main counting readonly_disk)) = 1"
    by simp
  from b n f1 f2 have y: "fst (main counting full_disk) = Inl OSError \<and>
      exit_status (fst (main counting full_disk)) = 1"
    by simp
  from c e1 e2 have z: "fst (main counting (empty_disk Posix)) = Inr () \<and>
      exit_status (fst (main counting (empty_disk Posix))) = 0"
    by simp
  from a b c x y z show ?thesis by blast
qed

subsection \<open>The files touched\<close>

text \<open>
  C8. The output path is \<^verbatim>\<open>personas.csv\<close>. No run changes, creates or removes any other
  file. When the path can be opened the file exists after the run, whether it existed
  before or not, and its content is the same from any disk with the same free
  space, so it does not depend on what the file held before; after a run without error it
  is the text of the 51 rows.
\<close>

theorem only_personas_csv_written:
  "filename = ''personas.csv'' \<and>
   (\<forall>p. p \<noteq> filename \<longrightarrow> files (snd (main r s)) p = files s p) \<and>
   (openable s filename \<longrightarrow>
      (\<exists>out. files (snd (main r s)) filename = Some out \<and>
         (\<forall>s'. openable s' filename \<and> space s' = space s \<longrightarrow>
            files (snd (main r s')) filename = Some out))) \<and>
   (fst (main r s) = Inr () \<longrightarrow>
      files (snd (main r s)) filename = Some (concat (map csv_line (table r))))"
proof -
  have "filename = ''personas.csv''"
    by (simp add: filename_def)
  moreover have "\<forall>p. p \<noteq> filename \<longrightarrow> files (snd (main r s)) p = files s p"
    by (simp add: main_frame)
  moreover have "openable s filename \<longrightarrow>
      (\<exists>out. files (snd (main r s)) filename = Some out \<and>
         (\<forall>s'. openable s' filename \<and> space s' = space s \<longrightarrow>
            files (snd (main r s')) filename = Some out))"
    by (simp add: main_opened)
  moreover have "fst (main r s) = Inr () \<longrightarrow>
      files (snd (main r s)) filename = Some (concat (map csv_line (table r)))"
    by (simp add: main_file)
  ultimately show ?thesis by blast
qed

theorem only_personas_csv_written_witness:
  "files used_disk filename = Some ''old content'' \<and>
   files (disk Windows Map.empty (Some 5000)) filename = None \<and>
   files (snd (main counting used_disk)) ''notes.txt'' = Some ''keep'' \<and>
   fst (main counting used_disk) = Inr () \<and>
   files (snd (main counting used_disk)) filename = Some (concat (map csv_line (table counting))) \<and>
   files (snd (main counting (disk Windows Map.empty (Some 5000)))) filename =
     Some (concat (map csv_line (table counting)))"
proof -
  note t = only_personas_csv_written[of counting used_disk]
  have o: "openable used_disk filename"
    by (simp add: used_disk_def disk_def)
  have ok: "fst (main counting used_disk) = Inr ()"
    by (rule main_roomy[of _ 5000]) (simp_all add: used_disk_def disk_def)
  have n: "''notes.txt'' \<noteq> filename"
    by (simp add: filename_def)
  have e: "openable (disk Windows Map.empty (Some 5000)) filename \<and>
           space (disk Windows Map.empty (Some 5000)) = space used_disk"
    by (simp add: used_disk_def disk_def)
  from t n have "files (snd (main counting used_disk)) ''notes.txt'' = files used_disk ''notes.txt''"
    by blast
  then have k: "files (snd (main counting used_disk)) ''notes.txt'' = Some ''keep''"
    by (simp add: used_disk_def disk_def filename_def)
  from t ok have f: "files (snd (main counting used_disk)) filename = Some (concat (map csv_line (table counting)))"
    by blast
  from t o obtain out where out: "files (snd (main counting used_disk)) filename = Some out"
    and all: "\<forall>s'. openable s' filename \<and> space s' = space used_disk \<longrightarrow>
            files (snd (main counting s')) filename = Some out"
    by blast
  from all e have "files (snd (main counting (disk Windows Map.empty (Some 5000)))) filename = Some out"
    by blast
  with out f have g: "files (snd (main counting (disk Windows Map.empty (Some 5000)))) filename =
     Some (concat (map csv_line (table counting)))"
    by simp
  have p: "files used_disk filename = Some ''old content'' \<and>
   files (disk Windows Map.empty (Some 5000)) filename = None"
    by (simp add: used_disk_def disk_def filename_def)
  from p k ok f g show ?thesis by blast
qed

subsection \<open>No quoting\<close>

text \<open>
  C9. No name, no city, no header label and no age from 18 to 65 written in decimal holds
  a comma, a double quote, a carriage return or a line feed. Hence in every run each row
  has three fields, the csv writer leaves each field as it is, and the line of the row is
  the plain comma-join of its fields followed by the line terminator.
\<close>

theorem no_quoting:
  "(\<forall>s \<in> set nombres \<union> set ciudades \<union> set (map cell_text header) \<union> str_int ` {18..65}.
      \<forall>c \<in> set s. c \<noteq> CHR '','' \<and> c \<noteq> CHR 0x22 \<and> c \<noteq> CHR 0x0D \<and> c \<noteq> CHR 0x0A) \<and>
   (\<exists>data r'. generate r = Inr (data, r') \<and>
      (\<forall>row \<in> set data. length row = 3 \<and>
         (\<forall>f \<in> set (map cell_text row). csv_field f = f) \<and>
         csv_line row = comma_join row @ lineterminator))"
proof -
  have "\<not> needs_quote s"
    if "s \<in> set nombres \<union> set ciudades \<union> set (map cell_text header) \<union> str_int ` {18..65}" for s
    using that plain_nombres plain_ciudades plain_header plain_str_int by blast
  then have chars: "\<forall>s \<in> set nombres \<union> set ciudades \<union> set (map cell_text header) \<union> str_int ` {18..65}.
      \<forall>c \<in> set s. c \<noteq> CHR '','' \<and> c \<noteq> CHR 0x22 \<and> c \<noteq> CHR 0x0D \<and> c \<noteq> CHR 0x0A"
    using plain_chars by blast
  have g: "generate r = Inr (table r, advance 150 r)"
    by (simp add: generate_eq table_eq)
  have "length row = 3 \<and> (\<forall>f \<in> set (map cell_text row). csv_field f = f) \<and>
         csv_line row = comma_join row @ lineterminator"
    if "row \<in> set (table r)" for row
    using that plain_table[OF that]
    by (simp add: length_rows csv_line_table plain_field lineterminator_def)
  with g chars show ?thesis by blast
qed

theorem no_quoting_witness:
  "''Barcelona'' \<in> set ciudades \<and>
   CHR '','' \<notin> set ''Barcelona'' \<and> CHR 0x22 \<notin> set ''Barcelona'' \<and>
   CHR 0x0D \<notin> set ''Barcelona'' \<and> CHR 0x0A \<notin> set ''Barcelona'' \<and>
   (\<exists>data r'. generate counting = Inr (data, r') \<and> header \<in> set data \<and> length header = 3 \<and>
      (\<forall>f \<in> set (map cell_text header). csv_field f = f) \<and>
      csv_line header = comma_join header @ lineterminator)"
proof -
  note t = no_quoting[of counting]
  have m: "''Barcelona'' \<in> set ciudades"
    by (simp add: ciudades_def)
  then have "''Barcelona'' \<in> set nombres \<union> set ciudades \<union> set (map cell_text header) \<union> str_int ` {18..65}"
    by blast
  with t have "\<forall>c \<in> set ''Barcelona''. c \<noteq> CHR '','' \<and> c \<noteq> CHR 0x22 \<and> c \<noteq> CHR 0x0D \<and> c \<noteq> CHR 0x0A"
    by blast
  then have a: "CHR '','' \<notin> set ''Barcelona'' \<and> CHR 0x22 \<notin> set ''Barcelona'' \<and>
                CHR 0x0D \<notin> set ''Barcelona'' \<and> CHR 0x0A \<notin> set ''Barcelona''"
    by blast
  from t obtain data r' where g: "generate counting = Inr (data, r')" and
    rows: "\<forall>row \<in> set data. length row = 3 \<and>
         (\<forall>f \<in> set (map cell_text row). csv_field f = f) \<and>
         csv_line row = comma_join row @ lineterminator"
    by blast
  from g have h: "header \<in> set data"
    by (auto simp: generate_eq)
  with rows have "length header = 3 \<and>
         (\<forall>f \<in> set (map cell_text header). csv_field f = f) \<and>
         csv_line header = comma_join header @ lineterminator"
    by blast
  with m a g h show ?thesis by blast
qed

end
